theory Spec2Isabelle
  imports Complex_Main "HOL-Library.Word"
begin

section \<open>Strings, numbers and the built-ins of the host\<close>

text \<open>
  The task pane (\<^verbatim>\<open>src/taskpane/taskpane.ts\<close>) is written against JavaScript strings and
  numbers. A string is its sequence of UTF-16 code units, so that \<^verbatim>\<open>.length\<close> is the length
  of the list. A number is a double: the finite ones are read as reals, and the three
  special values are constructors of their own.
\<close>

type_synonym jsstring = "16 word list"

definition lit :: "string \<Rightarrow> jsstring" where
  "lit s = map of_char s"

datatype jsnumber = NaN | NegInfinity | Num real | PosInfinity

text \<open>\<^verbatim>\<open>a >= b\<close> and \<^verbatim>\<open>a < b\<close> on numbers: every comparison with NaN is false.\<close>

fun js_ge :: "jsnumber \<Rightarrow> jsnumber \<Rightarrow> bool" where
  "js_ge NaN b = False"
| "js_ge a NaN = False"
| "js_ge PosInfinity b = True"
| "js_ge a NegInfinity = True"
| "js_ge NegInfinity b = False"
| "js_ge a PosInfinity = False"
| "js_ge (Num a) (Num b) = (b \<le> a)"

fun js_lt :: "jsnumber \<Rightarrow> jsnumber \<Rightarrow> bool" where
  "js_lt NaN b = False"
| "js_lt a NaN = False"
| "js_lt PosInfinity b = False"
| "js_lt a NegInfinity = False"
| "js_lt NegInfinity b = True"
| "js_lt a PosInfinity = True"
| "js_lt (Num a) (Num b) = (a < b)"

text \<open>\<^verbatim>\<open>Math.max(a, b)\<close>: NaN when either argument is NaN.\<close>

fun mathMax :: "jsnumber \<Rightarrow> jsnumber \<Rightarrow> jsnumber" where
  "mathMax NaN b = NaN"
| "mathMax a NaN = NaN"
| "mathMax PosInfinity b = PosInfinity"
| "mathMax a PosInfinity = PosInfinity"
| "mathMax NegInfinity b = b"
| "mathMax a NegInfinity = a"
| "mathMax (Num a) (Num b) = Num (max a b)"

datatype error = TypeError | SyntaxError

datatype json =
    JNull
  | JBool bool
  | JNumber jsnumber
  | JString jsstring
  | JArray "json list"
  | JObject "(jsstring \<times> json) list"

text \<open>
  The functions of the JavaScript runtime that the task pane calls and that are not
  defined in the repository are parameters of the model: \<^verbatim>\<open>String.prototype.toLowerCase\<close>,
  the text form of a number (\<^verbatim>\<open>String(n)\<close>), \<^verbatim>\<open>Number(s)\<close> and \<^verbatim>\<open>JSON.parse\<close>
  (\<open>Inl\<close> when it throws; an object is the list of its own properties, each key once).
\<close>

record builtins =
  toLowerCase :: "jsstring \<Rightarrow> jsstring"
  numberToString :: "jsnumber \<Rightarrow> jsstring"
  toNumber :: "jsstring \<Rightarrow> jsnumber"
  JSON_parse :: "jsstring \<Rightarrow> error + json"

text \<open>
  \<^verbatim>\<open>String.prototype.trim\<close> removes the code units of WhiteSpace and LineTerminator from
  both ends.
\<close>

definition isWhiteSpace :: "16 word \<Rightarrow> bool" where
  "isWhiteSpace u \<longleftrightarrow>
     u \<in> set [0x9, 0xA, 0xB, 0xC, 0xD, 0x20, 0xA0, 0x1680, 0x2028, 0x2029, 0x202F, 0x205F,
              0x3000, 0xFEFF]
     \<or> (0x2000 \<le> u \<and> u \<le> 0x200A)"

definition trim :: "jsstring \<Rightarrow> jsstring" where
  "trim s = rev (dropWhile isWhiteSpace (rev (dropWhile isWhiteSpace s)))"

text \<open>\<^verbatim>\<open>s.includes(q)\<close>: \<open>q\<close> occurs in \<open>s\<close> as a run of consecutive code units.\<close>

fun startsWith :: "jsstring \<Rightarrow> jsstring \<Rightarrow> bool" where
  "startsWith s [] = True"
| "startsWith [] (q # qs) = False"
| "startsWith (x # xs) (q # qs) = (x = q \<and> startsWith xs qs)"

fun includes_js :: "jsstring \<Rightarrow> jsstring \<Rightarrow> bool" where
  "includes_js [] q = (q = [])"
| "includes_js (x # xs) q = (startsWith (x # xs) q \<or> includes_js xs q)"

text \<open>The text of a non-negative integer in a template literal: its decimal digits.\<close>

function decimal :: "nat \<Rightarrow> jsstring" where
  "decimal n = (if n < 10 then [of_nat (48 + n)] else decimal (n div 10) @ [of_nat (48 + n mod 10)])"
  by pat_completeness auto
termination
  by (relation "measure (\<lambda>n. n)") auto

declare decimal.simps [simp del]

text \<open>Reading \<^verbatim>\<open>xs[i]\<close>: \<open>None\<close> is \<^verbatim>\<open>undefined\<close>, the value of an index out of range.\<close>

definition js_index :: "'a list \<Rightarrow> nat \<Rightarrow> 'a option" where
  "js_index xs i = (if i < length xs then Some (xs ! i) else None)"

section \<open>The worksheet and the state of the task pane\<close>

text \<open>A cell value of \<^verbatim>\<open>used.values as any[][]\<close>.\<close>

datatype cellval = Null | Undefined | StrV jsstring | NumV jsnumber | BoolV bool

fun String :: "builtins \<Rightarrow> cellval \<Rightarrow> jsstring" where
  "String rt Null = lit ''null''"
| "String rt Undefined = lit ''undefined''"
| "String rt (StrV s) = s"
| "String rt (NumV n) = numberToString rt n"
| "String rt (BoolV b) = (if b then lit ''true'' else lit ''false'')"

text \<open>
  The used range of the active worksheet as the task pane sees it: the three properties it
  loads, the fill colour of each cell (by row and column within the range, \<open>None\<close> for no
  fill) and the cell that \<^verbatim>\<open>select()\<close> chose last.
\<close>

record usedRange =
  cellValues :: "cellval list list"
  rowCount :: nat
  columnCount :: nat
  fill :: "nat \<times> nat \<Rightarrow> jsstring option"
  selected :: "(nat \<times> nat) option"

text \<open>(\<open>cellValues\<close> is the property \<^verbatim>\<open>values\<close>.) The host hands out a grid of \<open>rowCount\<close> rows of \<open>columnCount\<close> values each.\<close>

definition wf_used :: "usedRange \<Rightarrow> bool" where
  "wf_used u \<longleftrightarrow>
     length (cellValues u) = rowCount u \<and> list_all (\<lambda>row. length row = columnCount u) (cellValues u)"

datatype readyState = CONNECTING | OPEN | CLOSING | CLOSED

text \<open>
  The module's variables (\<open>ws\<close> is the address of a socket object, or \<open>None\<close> for
  \<^verbatim>\<open>null\<close>), the socket objects, the text of the two display elements and the worksheet.
\<close>

record addin =
  ws :: "nat option"
  bufferText :: jsstring
  autoSearchThreshold :: jsnumber
  sockets :: "nat \<Rightarrow> readyState"
  status :: jsstring
  live :: jsstring
  used :: usedRange

definition HIGHLIGHT_COLOR :: jsstring where
  "HIGHLIGHT_COLOR = lit ''yellow''"

definition setStatus :: "jsstring \<Rightarrow> addin \<Rightarrow> addin" where
  "setStatus msg s = s\<lparr>status := msg\<rparr>"

definition setLive :: "jsstring \<Rightarrow> addin \<Rightarrow> addin" where
  "setLive text s = s\<lparr>live := text\<rparr>"

section \<open>highlightMatches\<close>

text \<open>The test of line 44: \<^verbatim>\<open>cellVal != null && String(cellVal).toLowerCase().includes(query)\<close>.\<close>

definition cellMatches :: "builtins \<Rightarrow> jsstring \<Rightarrow> cellval \<Rightarrow> bool" where
  "cellMatches rt query cellVal \<longleftrightarrow>
     cellVal \<noteq> Null \<and> cellVal \<noteq> Undefined \<and> includes_js (toLowerCase rt (String rt cellVal)) query"

text \<open>
  The inner loop over \<open>c\<close>. \<^verbatim>\<open>vals[r][c]\<close> throws a TypeError when \<^verbatim>\<open>vals[r]\<close> is
  undefined, and is undefined when only \<open>c\<close> is out of range.
\<close>

function scanCols ::
  "builtins \<Rightarrow> jsstring \<Rightarrow> cellval list list \<Rightarrow> nat \<Rightarrow> nat \<Rightarrow> nat \<Rightarrow> (nat \<times> nat) list
     \<Rightarrow> error + (nat \<times> nat) list" where
  "scanCols rt query vals colCount r c hits =
     (if c < colCount then
        (case js_index vals r of
           None \<Rightarrow> Inl TypeError
         | Some row \<Rightarrow>
             (let cellVal = (case js_index row c of None \<Rightarrow> Undefined | Some v \<Rightarrow> v) in
              scanCols rt query vals colCount r (Suc c)
                (if cellMatches rt query cellVal then hits @ [(r, c)] else hits)))
      else Inr hits)"
  by pat_completeness auto
termination
  by (relation "measure (\<lambda>(rt, query, vals, colCount, r, c, hits). colCount - c)") auto

declare scanCols.simps [simp del]

text \<open>The outer loop over \<open>r\<close>.\<close>

function scanRows ::
  "builtins \<Rightarrow> jsstring \<Rightarrow> cellval list list \<Rightarrow> nat \<Rightarrow> nat \<Rightarrow> nat \<Rightarrow> (nat \<times> nat) list
     \<Rightarrow> error + (nat \<times> nat) list" where
  "scanRows rt query vals rows colCount r hits =
     (if r < rows then
        (case scanCols rt query vals colCount r 0 hits of
           Inl e \<Rightarrow> Inl e
         | Inr hits' \<Rightarrow> scanRows rt query vals rows colCount (Suc r) hits')
      else Inr hits)"
  by pat_completeness auto
termination
  by (relation "measure (\<lambda>(rt, query, vals, rows, colCount, r, hits). rows - r)") auto

declare scanRows.simps [simp del]

text \<open>Lines 39 to 48: the hits of a query in the loaded range.\<close>

definition findHits :: "builtins \<Rightarrow> jsstring \<Rightarrow> usedRange \<Rightarrow> error + (nat \<times> nat) list" where
  "findHits rt query u = scanRows rt query (cellValues u) (rowCount u) (columnCount u) 0 []"

text \<open>\<^verbatim>\<open>used.format.fill.clear()\<close> removes the fill of every cell of the range.\<close>

definition fillClear :: "usedRange \<Rightarrow> usedRange" where
  "fillClear u =
     u\<lparr>fill := (\<lambda>(r, c). if r < rowCount u \<and> c < columnCount u then None else fill u (r, c))\<rparr>"

text \<open>\<^verbatim>\<open>used.getCell(r, c).format.fill.color = colour\<close> and \<^verbatim>\<open>used.getCell(r, c).select()\<close>.\<close>

definition setFillColor :: "jsstring \<Rightarrow> nat \<times> nat \<Rightarrow> usedRange \<Rightarrow> usedRange" where
  "setFillColor colour rc u = u\<lparr>fill := (fill u)(rc \<mapsto> colour)\<rparr>"

definition select :: "nat \<times> nat \<Rightarrow> usedRange \<Rightarrow> usedRange" where
  "select rc u = u\<lparr>selected := Some rc\<rparr>"

definition foundMsg :: "nat \<Rightarrow> jsstring \<Rightarrow> jsstring" where
  "foundMsg n needle =
     lit ''Found '' @ decimal n @ lit '' match(es) for '' @ [0x201C] @ needle @ [0x201D] @ lit ''.''"

definition noMatchMsg :: "jsstring \<Rightarrow> jsstring" where
  "noMatchMsg needle = lit ''No matches for '' @ [0x201C] @ needle @ [0x201D] @ lit ''.''"

definition highlightMatches :: "builtins \<Rightarrow> jsstring \<Rightarrow> addin \<Rightarrow> error + addin" where
  "highlightMatches rt needle s =
     (if needle = [] \<or> trim needle = [] then Inr s
      else
        (let query = toLowerCase rt (trim needle) in
         case findHits rt query (used s) of
           Inl e \<Rightarrow> Inl e
         | Inr hits \<Rightarrow>
             (let u1 = fillClear (used s);
                  u2 = fold (setFillColor HIGHLIGHT_COLOR) hits u1
              in if length hits > 0
                 then Inr (setStatus (foundMsg (length hits) needle) (s\<lparr>used := select (hits ! 0) u2\<rparr>))
                 else Inr (setStatus (noMatchMsg needle) (s\<lparr>used := u2\<rparr>)))))"

section \<open>The socket's message handler, disconnect and the threshold control\<close>

text \<open>
  \<^verbatim>\<open>msg.type\<close> and \<^verbatim>\<open>msg.text\<close> on a parsed value: a TypeError on \<^verbatim>\<open>null\<close>, the own
  property of an object, and \<^verbatim>\<open>undefined\<close> (\<open>None\<close>) on a number, a boolean, a string or an
  array, none of which has a property of either name.
\<close>

fun getProp :: "json \<Rightarrow> jsstring \<Rightarrow> error + json option" where
  "getProp JNull k = Inl TypeError"
| "getProp (JObject kvs) k = Inr (map_of kvs k)"
| "getProp v k = Inr None"

text \<open>
  \<^verbatim>\<open>ws.onmessage\<close>, with \<open>data\<close> the text of the frame. The \<^verbatim>\<open>catch\<close> swallows every
  exception of the body: the state is then what the body had made of it.
\<close>

definition onmessage :: "builtins \<Rightarrow> jsstring \<Rightarrow> addin \<Rightarrow> addin" where
  "onmessage rt data s =
     (case JSON_parse rt data of
        Inl e \<Rightarrow> s
      | Inr msg \<Rightarrow>
          (case getProp msg (lit ''type'') of
             Inl e \<Rightarrow> s
           | Inr ty \<Rightarrow>
               if ty = Some (JString (lit ''partial'')) then
                 (case getProp msg (lit ''text'') of
                    Inr (Some (JString text)) \<Rightarrow>
                      (let s1 = setLive text (s\<lparr>bufferText := text\<rparr>) in
                       if js_ge (Num (real (length (bufferText s1)))) (autoSearchThreshold s1)
                       then (case highlightMatches rt (bufferText s1) s1 of
                               Inl e \<Rightarrow> s1
                             | Inr s2 \<Rightarrow> s2)
                       else s1)
                  | _ \<Rightarrow> s)
               else s))"

text \<open>\<^verbatim>\<open>ws.close()\<close> starts the closing handshake of a socket that is not closing or closed.\<close>

fun wsClose :: "readyState \<Rightarrow> readyState" where
  "wsClose CONNECTING = CLOSING"
| "wsClose OPEN = CLOSING"
| "wsClose CLOSING = CLOSING"
| "wsClose CLOSED = CLOSED"

definition disconnect :: "addin \<Rightarrow> addin" where
  "disconnect s =
     (case ws s of
        None \<Rightarrow> s
      | Some h \<Rightarrow> s\<lparr>sockets := (sockets s)(h := wsClose (sockets s h)), ws := None\<rparr>)"

text \<open>The change handler of the threshold input, \<open>v\<close> being \<^verbatim>\<open>th.value\<close>.\<close>

definition onThresholdChange :: "builtins \<Rightarrow> jsstring \<Rightarrow> addin \<Rightarrow> addin" where
  "onThresholdChange rt v s = s\<lparr>autoSearchThreshold := mathMax (Num 0) (toNumber rt v)\<rparr>"

section \<open>Notions of the specification and of the proofs\<close>

text \<open>
  Row-major order as the specification words it: row 0 first, then the columns from left to
  right within each row; \<open>precedes\<close> is the strict order of that enumeration.
\<close>

definition rowMajor :: "nat \<Rightarrow> nat \<Rightarrow> (nat \<times> nat) list" where
  "rowMajor rows cols = concat (map (\<lambda>r. map (Pair r) [0..<cols]) [0..<rows])"

definition precedes :: "nat \<times> nat \<Rightarrow> nat \<times> nat \<Rightarrow> bool" where
  "precedes a b \<longleftrightarrow> fst a < fst b \<or> (fst a = fst b \<and> snd a < snd b)"

text \<open>
  The test of line 44 at a coordinate of a grid.
\<close>

definition isHit :: "builtins \<Rightarrow> jsstring \<Rightarrow> usedRange \<Rightarrow> nat \<times> nat \<Rightarrow> bool" where
  "isHit rt query u rc \<longleftrightarrow> cellMatches rt query (cellValues u ! fst rc ! snd rc)"

text \<open>
  What the inner loop adds for row \<open>r\<close> from column \<open>c\<close> on.
\<close>

definition rowHits ::
  "builtins \<Rightarrow> jsstring \<Rightarrow> cellval list list \<Rightarrow> nat \<Rightarrow> nat \<Rightarrow> nat \<Rightarrow> (nat \<times> nat) list" where
  "rowHits rt query vals colCount r c =
     map (Pair r) (filter (\<lambda>c'. cellMatches rt query (vals ! r ! c')) [c..<colCount])"

text \<open>
  Closed forms used in the proofs: the hits of a search string in a rectangular grid, the
  range after they were highlighted and the first selected, and the status text.
\<close>

definition hitsOf :: "builtins \<Rightarrow> jsstring \<Rightarrow> usedRange \<Rightarrow> (nat \<times> nat) list" where
  "hitsOf rt needle u =
     filter (isHit rt (toLowerCase rt (trim needle)) u) (rowMajor (rowCount u) (columnCount u))"

definition highlighted :: "usedRange \<Rightarrow> (nat \<times> nat) list \<Rightarrow> usedRange" where
  "highlighted u hits =
     u\<lparr>fill := (\<lambda>rc. if rc \<in> set hits then Some HIGHLIGHT_COLOR
                       else if fst rc < rowCount u \<and> snd rc < columnCount u then None
                       else fill u rc),
       selected := (if hits = [] then selected u else Some (hd hits))\<rparr>"

definition report :: "nat \<Rightarrow> jsstring \<Rightarrow> jsstring" where
  "report n needle = (if 0 < n then foundMsg n needle else noMatchMsg needle)"

text \<open>
  The message shape of the specification: the frame parses to an object whose \<open>type\<close>
  is the string \<open>partial\<close> and whose \<open>text\<close> is a string; the result is that text.
\<close>

definition spec_partial_text :: "error + json \<Rightarrow> jsstring option" where
  "spec_partial_text parsed =
     (case parsed of
        Inr (JObject kvs) \<Rightarrow>
          (case map_of kvs (lit ''type'') of
             Some (JString ty) \<Rightarrow>
               if ty = lit ''partial''
               then (case map_of kvs (lit ''text'') of Some (JString text) \<Rightarrow> Some text | _ \<Rightarrow> None)
               else None
           | _ \<Rightarrow> None)
      | _ \<Rightarrow> None)"

text \<open>
  The state once the handler has stored a transcript and shown it.
\<close>

abbreviation received :: "jsstring \<Rightarrow> addin \<Rightarrow> addin" where
  "received text s \<equiv> s\<lparr>bufferText := text, live := text\<rparr>"

text \<open>
  What \<^verbatim>\<open>toLowerCase\<close> does on ASCII text: the letters A to Z become a to z, code unit by
  code unit, and nothing else changes. The scenarios of the specification need no more of it.
\<close>

definition asciiLower :: "16 word \<Rightarrow> 16 word" where
  "asciiLower u = (if 0x41 \<le> u \<and> u \<le> 0x5A then u + 0x20 else u)"

definition lowersAscii :: "builtins \<Rightarrow> bool" where
  "lowersAscii rt \<longleftrightarrow>
     (\<forall>t. list_all (\<lambda>u. u < 0x80) t \<longrightarrow> toLowerCase rt t = map asciiLower t)"

section \<open>Example inputs\<close>

text \<open>
  A runtime for the examples: \<open>toLowerCase\<close> as it acts on ASCII text, and \<open>Number\<close> and
  \<open>JSON.parse\<close> given by their values on the texts that the examples use (a failure to
  parse and NaN elsewhere). No example has a number in a cell, so the text form of a number
  is a placeholder.
\<close>

definition frameHello :: jsstring where
  \<open>frameHello = lit ''{"type":"partial","text":"hello"}''\<close>

definition frameHelloBang :: jsstring where
  \<open>frameHelloBang = lit ''{"type":"partial","text":"hello!"}''\<close>

definition frameStatus :: jsstring where
  \<open>frameStatus = lit ''{"type":"status","text":"ok"}''\<close>

definition partialMsg :: "jsstring \<Rightarrow> json" where
  "partialMsg text = JObject [(lit ''type'', JString (lit ''partial'')), (lit ''text'', JString text)]"

definition statusMsg :: json where
  "statusMsg = JObject [(lit ''type'', JString (lit ''status'')), (lit ''text'', JString (lit ''ok''))]"

definition exampleParse :: "jsstring \<Rightarrow> error + json" where
  "exampleParse data =
     (if data = frameHello then Inr (partialMsg (lit ''hello''))
      else if data = frameHelloBang then Inr (partialMsg (lit ''hello!''))
      else if data = frameStatus then Inr statusMsg
      else if data = lit ''null'' then Inr JNull
      else Inl SyntaxError)"

definition exampleNumber :: "jsstring \<Rightarrow> jsnumber" where
  "exampleNumber v =
     (if v = [] then Num 0
      else if v = lit ''10'' then Num 10
      else if v = lit ''-3'' then Num (- 3)
      else NaN)"

definition exampleRt :: builtins where
  "exampleRt =
     \<lparr>toLowerCase = map asciiLower, numberToString = (\<lambda>n. lit ''NaN''),
      toNumber = exampleNumber, JSON_parse = exampleParse\<rparr>"

text \<open>
  The grid of the specification's scenarios, with no fill and no selection yet.
\<close>

definition exampleGrid :: "cellval list list" where
  "exampleGrid = [[StrV (lit ''apple''), StrV (lit ''banana'')],
                  [StrV (lit ''Cherry''), StrV (lit ''grape'')]]"

definition exampleRange :: usedRange where
  "exampleRange =
     \<lparr>cellValues = exampleGrid, rowCount = 2, columnCount = 2, fill = (\<lambda>rc. None),
      selected = None\<rparr>"

definition exampleState :: addin where
  "exampleState =
     \<lparr>ws = None, bufferText = [], autoSearchThreshold = Num 6, sockets = (\<lambda>h. CLOSED),
      status = [], live = [], used = exampleRange\<rparr>"

text \<open>
  The same sheet with the cell (0, 0) still highlighted by an earlier search.
\<close>

definition staleState :: addin where
  "staleState = exampleState\<lparr>used := exampleRange\<lparr>fill := (\<lambda>rc. None)((0, 0) \<mapsto> HIGHLIGHT_COLOR)\<rparr>\<rparr>"

text \<open>
  A grid with an absent cell and a boolean, and one whose matches are at (0, 3) and (2, 0).
\<close>

definition catRange :: usedRange where
  "catRange =
     \<lparr>cellValues = [[StrV (lit ''Category''), Null, StrV (lit ''CAT'')],
                    [BoolV True, StrV (lit ''concatenate''), StrV (lit ''dog'')]],
      rowCount = 2, columnCount = 3, fill = (\<lambda>rc. None), selected = None\<rparr>"

definition catState :: addin where
  "catState = exampleState\<lparr>used := catRange\<rparr>"

definition orderRange :: usedRange where
  "orderRange =
     \<lparr>cellValues = [[StrV (lit ''a''), StrV (lit ''b''), StrV (lit ''c''), StrV (lit ''Hit'')],
                    [StrV (lit ''d''), Null, StrV (lit ''e''), StrV (lit ''f'')],
                    [StrV (lit ''hit''), StrV (lit ''g''), StrV (lit ''h''), StrV (lit ''i'')]],
      rowCount = 3, columnCount = 4, fill = (\<lambda>rc. None), selected = None\<rparr>"

definition orderState :: addin where
  "orderState = exampleState\<lparr>used := orderRange\<rparr>"

text \<open>
  A state with an open connection at address 1.
\<close>

definition openState :: addin where
  "openState = exampleState\<lparr>ws := Some 1, sockets := (\<lambda>h. CLOSED)(1 := OPEN)\<rparr>"

section \<open>Substring search and trimming\<close>

lemma startsWith_iff: "startsWith s q \<longleftrightarrow> (\<exists>b. s = q @ b)"
  by (induction s q rule: startsWith.induct) auto

lemma includes_js_iff: "includes_js s q \<longleftrightarrow> (\<exists>a b. s = a @ q @ b)"
proof (induction s)
  case Nil
  then show ?case by auto
next
  case (Cons x xs)
  show ?case
  proof
    assume "includes_js (x # xs) q"
    then consider "startsWith (x # xs) q" | "includes_js xs q" by auto
    then show "\<exists>a b. x # xs = a @ q @ b"
    proof cases
      case 1
      then obtain b where "x # xs = q @ b" by (auto simp: startsWith_iff)
      then have "x # xs = [] @ q @ b" by simp
      then show ?thesis by blast
    next
      case 2
      then obtain a b where "xs = a @ q @ b" using Cons.IH by blast
      then have "x # xs = (x # a) @ q @ b" by simp
      then show ?thesis by blast
    qed
  next
    assume "\<exists>a b. x # xs = a @ q @ b"
    then obtain a b where ab: "x # xs = a @ q @ b" by blast
    show "includes_js (x # xs) q"
    proof (cases a)
      case Nil
      with ab have "startsWith (x # xs) q" by (auto simp: startsWith_iff)
      then show ?thesis by simp
    next
      case (Cons y ys)
      with ab have "xs = ys @ q @ b" by simp
      then have "includes_js xs q" using Cons.IH by blast
      then show ?thesis by simp
    qed
  qed
qed

lemma trim_Nil_iff: "trim s = [] \<longleftrightarrow> (\<forall>u\<in>set s. isWhiteSpace u)"
proof
  assume "trim s = []"
  then have "dropWhile isWhiteSpace (rev (dropWhile isWhiteSpace s)) = []"
    by (simp add: trim_def)
  then have "\<forall>u\<in>set (dropWhile isWhiteSpace s). isWhiteSpace u"
    by simp
  then have "dropWhile isWhiteSpace s = []"
    by (metis hd_dropWhile list.set_sel(1))
  then show "\<forall>u\<in>set s. isWhiteSpace u"
    by simp
next
  assume "\<forall>u\<in>set s. isWhiteSpace u"
  then show "trim s = []" by (auto simp: trim_def dest: set_dropWhileD)
qed

lemma trim_nonempty: "trim needle \<noteq> [] \<Longrightarrow> needle \<noteq> []"
  by (auto simp: trim_def)

section \<open>The scan of the used range\<close>

lemma scanCols_wf:
  assumes "r < length vals" and "length (vals ! r) = colCount"
  shows "c \<le> colCount \<Longrightarrow>
    scanCols rt query vals colCount r c hits = Inr (hits @ rowHits rt query vals colCount r c)"
proof (induction "colCount - c" arbitrary: c hits)
  case 0
  then show ?case by (simp add: scanCols.simps rowHits_def)
next
  case (Suc n)
  then have lt: "c < colCount" and n: "n = colCount - Suc c" and le: "Suc c \<le> colCount" by auto
  have up: "[c..<colCount] = c # [Suc c..<colCount]" using lt by (simp add: upt_conv_Cons)
  show ?case
    using lt assms Suc.hyps(1)[OF n le]
    by (subst scanCols.simps) (simp add: js_index_def rowHits_def up)
qed

lemma scanRows_wf:
  assumes "length vals = rows" and "\<forall>row\<in>set vals. length row = colCount"
  shows "r \<le> rows \<Longrightarrow>
    scanRows rt query vals rows colCount r hits =
      Inr (hits @ concat (map (\<lambda>r'. rowHits rt query vals colCount r' 0) [r..<rows]))"
proof (induction "rows - r" arbitrary: r hits)
  case 0
  then show ?case by (simp add: scanRows.simps)
next
  case (Suc n)
  then have lt: "r < rows" and n: "n = rows - Suc r" and le: "Suc r \<le> rows" by auto
  have up: "[r..<rows] = r # [Suc r..<rows]" using lt by (simp add: upt_conv_Cons)
  have row: "r < length vals" "length (vals ! r) = colCount" using lt assms by auto
  have cols: "scanCols rt query vals colCount r 0 hits = Inr (hits @ rowHits rt query vals colCount r 0)"
    using scanCols_wf[OF row] by simp
  show ?case
    using lt Suc.hyps(1)[OF n le]
    by (subst scanRows.simps) (simp add: cols up)
qed

lemma rowHits_filter:
  "concat (map (\<lambda>r. rowHits rt query vals cols r 0) rs) =
     filter (\<lambda>rc. cellMatches rt query (vals ! fst rc ! snd rc))
       (concat (map (\<lambda>r. map (Pair r) [0..<cols]) rs))"
  by (induction rs) (simp_all add: rowHits_def filter_map comp_def)

lemma findHits_wf:
  assumes "wf_used u"
  shows "findHits rt query u = Inr (filter (isHit rt query u) (rowMajor (rowCount u) (columnCount u)))"
proof -
  have a: "length (cellValues u) = rowCount u" "\<forall>row\<in>set (cellValues u). length row = columnCount u"
    using assms by (simp_all add: wf_used_def list_all_iff)
  have "findHits rt query u =
      Inr ([] @ concat (map (\<lambda>r'. rowHits rt query (cellValues u) (columnCount u) r' 0) [0..<rowCount u]))"
    unfolding findHits_def by (rule scanRows_wf[OF a]) simp
  then show ?thesis
    by (simp add: rowHits_filter rowMajor_def isHit_def[abs_def])
qed

lemma set_rowMajor: "set (rowMajor rows cols) = {rc. fst rc < rows \<and> snd rc < cols}"
  by (auto simp: rowMajor_def)

lemma rowMajor_Suc: "rowMajor (Suc n) cols = rowMajor n cols @ map (Pair n) [0..<cols]"
  by (simp add: rowMajor_def)

lemma sorted_rowMajor: "sorted_wrt precedes (rowMajor rows cols)"
proof (induction rows)
  case 0
  show ?case by (simp add: rowMajor_def)
next
  case (Suc n)
  have "sorted_wrt precedes (map (Pair n) [0..<cols])"
    by (simp add: sorted_wrt_map precedes_def)
  moreover have "\<forall>x\<in>set (rowMajor n cols). \<forall>y\<in>set (map (Pair n) [0..<cols]). precedes x y"
    by (auto simp: set_rowMajor precedes_def)
  ultimately show ?case
    using Suc unfolding rowMajor_Suc sorted_wrt_append by blast
qed

lemma hd_filter_first:
  assumes "sorted_wrt R xs" and "y \<in> set (filter P xs)"
  shows "hd (filter P xs) = y \<or> R (hd (filter P xs)) y"
  using assms by (induction xs) auto

lemma hitsOf_first:
  assumes "rc \<in> set (hitsOf rt needle u)"
  shows "rc = hd (hitsOf rt needle u) \<or> precedes (hd (hitsOf rt needle u)) rc"
  using hd_filter_first[OF sorted_rowMajor, of rc "isHit rt (toLowerCase rt (trim needle)) u" "rowCount u" "columnCount u"] assms
  unfolding hitsOf_def by blast

lemma distinct_rowMajor: "distinct (rowMajor rows cols)"
proof -
  have irrefl: "\<not> precedes a a" for a by (simp add: precedes_def)
  have "sorted_wrt precedes xs \<Longrightarrow> distinct xs" for xs
  proof (induction xs)
    case Nil
    show ?case by simp
  next
    case (Cons x xs)
    then show ?case using irrefl by fastforce
  qed
  then show ?thesis using sorted_rowMajor by blast
qed

lemma distinct_hitsOf: "distinct (hitsOf rt needle u)"
  by (simp add: hitsOf_def distinct_rowMajor)

lemma set_hitsOf:
  "set (hitsOf rt needle u) =
     {(r, c). r < rowCount u \<and> c < columnCount u \<and>
        cellValues u ! r ! c \<noteq> Null \<and> cellValues u ! r ! c \<noteq> Undefined \<and>
        (\<exists>a b. toLowerCase rt (String rt (cellValues u ! r ! c)) =
                 a @ toLowerCase rt (trim needle) @ b)}"
  by (auto simp: hitsOf_def set_rowMajor isHit_def cellMatches_def includes_js_iff) blast+

section \<open>The effect of highlightMatches\<close>

lemma fold_setFillColor:
  "fold (setFillColor col) hits u = u\<lparr>fill := (\<lambda>rc. if rc \<in> set hits then Some col else fill u rc)\<rparr>"
proof (induction hits arbitrary: u)
  case Nil
  show ?case by simp
next
  case (Cons x xs)
  have eq: "(\<lambda>rc. if rc \<in> set xs then Some col else ((fill u)(x \<mapsto> col)) rc) =
        (\<lambda>rc. if rc \<in> set (x # xs) then Some col else fill u rc)"
    by (rule ext) simp
  have "fold (setFillColor col) (x # xs) u = fold (setFillColor col) xs (setFillColor col x u)"
    by simp
  also have "\<dots> = (setFillColor col x u)
      \<lparr>fill := (\<lambda>rc. if rc \<in> set xs then Some col else fill (setFillColor col x u) rc)\<rparr>"
    by (rule Cons.IH)
  also have "\<dots> = u\<lparr>fill := (\<lambda>rc. if rc \<in> set xs then Some col else ((fill u)(x \<mapsto> col)) rc)\<rparr>"
    by (simp add: setFillColor_def cong: if_cong)
  finally show ?case unfolding eq .
qed

lemma highlightMatches_blank:
  "trim needle = [] \<Longrightarrow> highlightMatches rt needle s = Inr s"
  by (simp add: highlightMatches_def)

lemma highlightMatches_wf:
  assumes "wf_used (used s)" and "trim needle \<noteq> []"
  shows "highlightMatches rt needle s =
     Inr (s\<lparr>used := highlighted (used s) (hitsOf rt needle (used s)),
            status := report (length (hitsOf rt needle (used s))) needle\<rparr>)"
proof -
  let ?hits = "hitsOf rt needle (used s)"
  have f: "findHits rt (toLowerCase rt (trim needle)) (used s) = Inr ?hits"
    using findHits_wf[OF assms(1)] by (simp add: hitsOf_def)
  have ne: "needle \<noteq> []" using assms(2) by (rule trim_nonempty)
  have u: "fold (setFillColor HIGHLIGHT_COLOR) ?hits (fillClear (used s)) =
      (used s)\<lparr>fill := (\<lambda>rc. if rc \<in> set ?hits then Some HIGHLIGHT_COLOR
                       else if fst rc < rowCount (used s) \<and> snd rc < columnCount (used s) then None
                       else fill (used s) rc)\<rparr>"
    by (simp add: fold_setFillColor fillClear_def case_prod_beta cong: if_cong)
  show ?thesis
  proof (cases "?hits = []")
    case True
    then show ?thesis
      using assms(2) ne f u
      by (simp add: highlightMatches_def highlighted_def report_def setStatus_def)
  next
    case False
    then have "hd ?hits = ?hits ! 0" by (simp add: hd_conv_nth)
    then show ?thesis
      using False assms(2) ne f u
      by (simp add: highlightMatches_def highlighted_def report_def setStatus_def select_def)
  qed
qed

lemma highlightMatches_result:
  assumes "wf_used (used s)" and "trim needle \<noteq> []"
  shows "\<exists>s'. highlightMatches rt needle s = Inr s' \<and>
     findHits rt (toLowerCase rt (trim needle)) (used s) = Inr (hitsOf rt needle (used s)) \<and>
     used s' = highlighted (used s) (hitsOf rt needle (used s)) \<and>
     status s' = report (length (hitsOf rt needle (used s))) needle"
  using highlightMatches_wf[OF assms, of rt] findHits_wf[OF assms(1), of rt "toLowerCase rt (trim needle)"]
  by (simp add: hitsOf_def)

lemma highlightMatches_total:
  assumes "wf_used (used s)"
  shows "\<exists>s'. highlightMatches rt needle s = Inr s'"
proof (cases "trim needle = []")
  case True
  then show ?thesis by (simp add: highlightMatches_blank)
next
  case False
  then show ?thesis using highlightMatches_wf[OF assms False] by blast
qed

lemma highlightMatches_frame:
  assumes "highlightMatches rt needle s = Inr s'"
  shows "bufferText s' = bufferText s \<and> live s' = live s \<and>
     autoSearchThreshold s' = autoSearchThreshold s \<and> ws s' = ws s \<and> sockets s' = sockets s"
  using assms
  by (auto simp: highlightMatches_def Let_def setStatus_def split: if_splits sum.splits)

lemma wf_used_highlighted: "wf_used (highlighted u hits) = wf_used u"
  by (simp add: wf_used_def highlighted_def)

lemma hitsOf_highlighted: "hitsOf rt needle (highlighted u hits) = hitsOf rt needle u"
  by (simp add: hitsOf_def highlighted_def isHit_def[abs_def])

lemma highlighted_idem: "highlighted (highlighted u hits) hits = highlighted u hits"
  by (simp add: highlighted_def fun_eq_iff)

section \<open>The scenarios of the specification\<close>

lemma lowersAscii_exampleRt: "lowersAscii exampleRt"
  by (simp add: lowersAscii_def exampleRt_def)

lemma wf_exampleState: "wf_used (used exampleState)"
  by (simp add: exampleState_def exampleRange_def exampleGrid_def wf_used_def)

lemma lowerI:
  "lowersAscii rt \<Longrightarrow> list_all (\<lambda>u. u < 0x80) t \<and> map asciiLower t = t' \<Longrightarrow> toLowerCase rt t = t'"
  by (simp add: lowersAscii_def)

lemma rowMajor_2_2: "rowMajor 2 2 = [(0, 0), (0, 1), (1, 0), (1, 1)]"
  by code_simp

lemma trim_an: "trim (lit ''an'') = lit ''an''"
  by code_simp

lemma trim_xyz: "trim (lit ''xyz'') = lit ''xyz''"
  by code_simp

lemma exampleGrid_lower:
  assumes "lowersAscii rt"
  shows "toLowerCase rt (lit ''an'') = lit ''an''"
    and "toLowerCase rt (lit ''xyz'') = lit ''xyz''"
    and "toLowerCase rt (lit ''apple'') = lit ''apple''"
    and "toLowerCase rt (lit ''banana'') = lit ''banana''"
    and "toLowerCase rt (lit ''Cherry'') = lit ''cherry''"
    and "toLowerCase rt (lit ''grape'') = lit ''grape''"
  by (rule lowerI[OF assms], code_simp)+

lemma exampleGrid_includes:
  "\<not> includes_js (lit ''apple'') (lit ''an'')"
  "includes_js (lit ''banana'') (lit ''an'')"
  "\<not> includes_js (lit ''cherry'') (lit ''an'')"
  "\<not> includes_js (lit ''grape'') (lit ''an'')"
  "\<not> includes_js (lit ''apple'') (lit ''xyz'')"
  "\<not> includes_js (lit ''banana'') (lit ''xyz'')"
  "\<not> includes_js (lit ''cherry'') (lit ''xyz'')"
  "\<not> includes_js (lit ''grape'') (lit ''xyz'')"
  by code_simp+

lemma exampleGrid_cells:
  "exampleGrid ! 0 ! 0 = StrV (lit ''apple'')"
  "exampleGrid ! 0 ! Suc 0 = StrV (lit ''banana'')"
  "exampleGrid ! Suc 0 ! 0 = StrV (lit ''Cherry'')"
  "exampleGrid ! Suc 0 ! Suc 0 = StrV (lit ''grape'')"
  by (simp_all add: exampleGrid_def)

lemma exampleGrid_isHit_an:
  assumes "lowersAscii rt" and "cellValues u = exampleGrid"
  shows "\<not> isHit rt (lit ''an'') u (0, 0)"
    and "isHit rt (lit ''an'') u (0, Suc 0)"
    and "\<not> isHit rt (lit ''an'') u (Suc 0, 0)"
    and "\<not> isHit rt (lit ''an'') u (Suc 0, Suc 0)"
  by (simp_all add: isHit_def cellMatches_def assms(2) exampleGrid_cells
      exampleGrid_lower[OF assms(1)] exampleGrid_includes)

lemma exampleGrid_isHit_xyz:
  assumes "lowersAscii rt" and "cellValues u = exampleGrid"
  shows "\<not> isHit rt (lit ''xyz'') u (0, 0)"
    and "\<not> isHit rt (lit ''xyz'') u (0, Suc 0)"
    and "\<not> isHit rt (lit ''xyz'') u (Suc 0, 0)"
    and "\<not> isHit rt (lit ''xyz'') u (Suc 0, Suc 0)"
  by (simp_all add: isHit_def cellMatches_def assms(2) exampleGrid_cells
      exampleGrid_lower[OF assms(1)] exampleGrid_includes)

lemma hitsOf_an:
  assumes "lowersAscii rt" and "cellValues u = exampleGrid" and "rowCount u = 2" and "columnCount u = 2"
  shows "hitsOf rt (lit ''an'') u = [(0, 1)]"
  by (simp add: hitsOf_def assms(3,4) rowMajor_2_2 trim_an exampleGrid_lower[OF assms(1)]
      exampleGrid_isHit_an[OF assms(1,2)])

lemma hitsOf_xyz:
  assumes "lowersAscii rt" and "cellValues u = exampleGrid" and "rowCount u = 2" and "columnCount u = 2"
  shows "hitsOf rt (lit ''xyz'') u = []"
  by (simp add: hitsOf_def assms(3,4) rowMajor_2_2 trim_xyz exampleGrid_lower[OF assms(1)]
      exampleGrid_isHit_xyz[OF assms(1,2)])

section \<open>The handlers\<close>

lemma onmessage_unrecognized:
  assumes "spec_partial_text (JSON_parse rt data) = None"
  shows "onmessage rt data s = s"
proof (cases "JSON_parse rt data")
  case (Inl e)
  then show ?thesis by (simp add: onmessage_def)
next
  case (Inr msg)
  show ?thesis
  proof (cases msg)
    case (JObject kvs)
    show ?thesis
      using assms Inr JObject
      by (auto simp: onmessage_def spec_partial_text_def
          split: option.splits json.splits if_splits)
  qed (simp_all add: onmessage_def Inr)
qed

lemma onmessage_recognized:
  assumes "spec_partial_text (JSON_parse rt data) = Some text"
  shows "onmessage rt data s =
     (if js_ge (Num (real (length text))) (autoSearchThreshold s)
      then (case highlightMatches rt text (received text s) of
              Inl e \<Rightarrow> received text s
            | Inr s2 \<Rightarrow> s2)
      else received text s)"
proof -
  obtain kvs where p: "JSON_parse rt data = Inr (JObject kvs)"
    and ty: "map_of kvs (lit ''type'') = Some (JString (lit ''partial''))"
    and tx: "map_of kvs (lit ''text'') = Some (JString text)"
    using assms
    by (auto simp: spec_partial_text_def split: sum.splits json.splits option.splits if_splits)
  show ?thesis
    by (simp add: onmessage_def p ty tx setLive_def Let_def cong: sum.case_cong)
qed

lemma mathMax_zero_ge: "b \<noteq> NaN \<Longrightarrow> js_ge (mathMax (Num 0) b) (Num 0)"
  by (cases b) auto

lemma mathMax_zero_not_lt: "\<not> js_lt (mathMax (Num 0) b) (Num 0)"
  by (cases b) auto

lemma fold_threshold_ge:
  "js_ge (autoSearchThreshold s) (Num 0) \<Longrightarrow> \<forall>v\<in>set vs. toNumber rt v \<noteq> NaN \<Longrightarrow>
   js_ge (autoSearchThreshold (fold (onThresholdChange rt) vs s)) (Num 0)"
  by (induction vs arbitrary: s) (simp_all add: onThresholdChange_def mathMax_zero_ge)

lemma fold_threshold_not_lt:
  "\<not> js_lt (autoSearchThreshold s) (Num 0) \<Longrightarrow>
   \<not> js_lt (autoSearchThreshold (fold (onThresholdChange rt) vs s)) (Num 0)"
  by (induction vs arbitrary: s) (simp_all add: onThresholdChange_def mathMax_zero_not_lt)

section \<open>The claims\<close>

text \<open>
  C1. For a search string that is not blank and a rectangular grid of cell values, a call of
  \<open>highlightMatches\<close> returns, and the hits it computes (lines 39 to 48, with the query that
  line 31 makes of the search string) are, each once, exactly the coordinates \<open>(r, c)\<close> of the
  used range whose value is neither null nor undefined and whose text form, lowercased,
  contains the lowercased trimmed search string as a run of consecutive code units; a value
  that is not a string is compared through \<open>String\<close>. The state that the call returns shows
  this set: a cell of the used range has the highlight colour exactly when it is one of the
  hits, the first hit is selected, and the status text counts the hits.
\<close>

theorem highlightMatches_match_set:
  assumes "wf_used (used s)" and "trim needle \<noteq> []"
  shows "\<exists>hits s'.
     highlightMatches rt needle s = Inr s' \<and>
     findHits rt (toLowerCase rt (trim needle)) (used s) = Inr hits \<and>
     distinct hits \<and>
     set hits =
       {(r, c). r < rowCount (used s) \<and> c < columnCount (used s) \<and>
          cellValues (used s) ! r ! c \<noteq> Null \<and> cellValues (used s) ! r ! c \<noteq> Undefined \<and>
          (\<exists>a b. toLowerCase rt (String rt (cellValues (used s) ! r ! c)) =
                   a @ toLowerCase rt (trim needle) @ b)} \<and>
     (\<forall>r<rowCount (used s). \<forall>c<columnCount (used s).
        (fill (used s') (r, c) = Some HIGHLIGHT_COLOR) = ((r, c) \<in> set hits)) \<and>
     selected (used s') = (if hits = [] then selected (used s) else Some (hd hits)) \<and>
     status s' = (if hits = [] then noMatchMsg needle else foundMsg (length hits) needle)"
proof -
  let ?H = "hitsOf rt needle (used s)"
  obtain s' where s': "highlightMatches rt needle s = Inr s'"
    and f: "findHits rt (toLowerCase rt (trim needle)) (used s) = Inr ?H"
    and u: "used s' = highlighted (used s) ?H"
    and st: "status s' = report (length ?H) needle"
    using highlightMatches_result[OF assms] by blast
  have d: "distinct ?H" by (rule distinct_hitsOf)
  have m: "set ?H =
       {(r, c). r < rowCount (used s) \<and> c < columnCount (used s) \<and>
          cellValues (used s) ! r ! c \<noteq> Null \<and> cellValues (used s) ! r ! c \<noteq> Undefined \<and>
          (\<exists>a b. toLowerCase rt (String rt (cellValues (used s) ! r ! c)) =
                   a @ toLowerCase rt (trim needle) @ b)}"
    by (rule set_hitsOf)
  have fl: "\<forall>r<rowCount (used s). \<forall>c<columnCount (used s).
        (fill (used s') (r, c) = Some HIGHLIGHT_COLOR) = ((r, c) \<in> set ?H)"
    by (simp add: u highlighted_def)
  have sel: "selected (used s') = (if ?H = [] then selected (used s) else Some (hd ?H))"
    by (simp add: u highlighted_def)
  have msg: "status s' = (if ?H = [] then noMatchMsg needle else foundMsg (length ?H) needle)"
    by (simp add: st report_def)
  show ?thesis
    apply (rule exI[of _ ?H], rule exI[of _ s'])
    apply (insert s' f d m fl sel msg)
    apply (intro conjI; assumption)
    done
qed

text \<open>
  An instance: in a grid with an absent cell and a boolean, the search string \<open>Cat\<close> between
  two spaces highlights \<open>Category\<close>, \<open>CAT\<close> and \<open>concatenate\<close> and no other cell.
\<close>

theorem highlightMatches_match_set_witness:
  "wf_used (used catState) \<and> trim (lit '' Cat '') \<noteq> [] \<and>
   (\<exists>s'. highlightMatches exampleRt (lit '' Cat '') catState = Inr s' \<and>
      findHits exampleRt (toLowerCase exampleRt (trim (lit '' Cat ''))) (used catState) =
        Inr [(0, 0), (0, 2), (1, 1)] \<and>
      fill (used s') (0, 0) = Some HIGHLIGHT_COLOR \<and>
      fill (used s') (0, 1) \<noteq> Some HIGHLIGHT_COLOR \<and>
      fill (used s') (0, 2) = Some HIGHLIGHT_COLOR \<and>
      fill (used s') (1, 0) \<noteq> Some HIGHLIGHT_COLOR \<and>
      fill (used s') (1, 1) = Some HIGHLIGHT_COLOR \<and>
      fill (used s') (1, 2) \<noteq> Some HIGHLIGHT_COLOR \<and>
      selected (used s') = Some (0, 0) \<and>
      status s' = foundMsg 3 (lit '' Cat ''))"
proof -
  have wf: "wf_used (used catState)" by code_simp
  have nb: "trim (lit '' Cat '') \<noteq> []" by code_simp
  have ev: "findHits exampleRt (toLowerCase exampleRt (trim (lit '' Cat ''))) (used catState) =
      Inr [(0, 0), (0, 2), (1, 1)]"
    by code_simp
  have dims: "rowCount (used catState) = 2" "columnCount (used catState) = 3"
    by (simp_all add: catState_def catRange_def)
  obtain hits s' where h: "highlightMatches exampleRt (lit '' Cat '') catState = Inr s'"
    and f: "findHits exampleRt (toLowerCase exampleRt (trim (lit '' Cat ''))) (used catState) = Inr hits"
    and fl: "\<forall>r<rowCount (used catState). \<forall>c<columnCount (used catState).
        (fill (used s') (r, c) = Some HIGHLIGHT_COLOR) = ((r, c) \<in> set hits)"
    and sel: "selected (used s') = (if hits = [] then selected (used catState) else Some (hd hits))"
    and msg: "status s' = (if hits = [] then noMatchMsg (lit '' Cat '')
                           else foundMsg (length hits) (lit '' Cat ''))"
    using highlightMatches_match_set [OF wf nb, of exampleRt] by blast
  have hits: "hits = [(0, 0), (0, 2), (1, 1)]" using f ev by simp
  have c: "fill (used s') (0, 0) = Some HIGHLIGHT_COLOR" "fill (used s') (0, 1) \<noteq> Some HIGHLIGHT_COLOR"
    "fill (used s') (0, 2) = Some HIGHLIGHT_COLOR" "fill (used s') (1, 0) \<noteq> Some HIGHLIGHT_COLOR"
    "fill (used s') (1, 1) = Some HIGHLIGHT_COLOR" "fill (used s') (1, 2) \<noteq> Some HIGHLIGHT_COLOR"
    using fl by (simp_all add: dims hits)
  have s0: "selected (used s') = Some (0, 0)" using sel by (simp add: hits)
  have m: "status s' = foundMsg 3 (lit '' Cat '')" using msg by (simp add: hits numeral_3_eq_3)
  show ?thesis
    apply (intro conjI)
      apply (rule wf)
     apply (rule nb)
    apply (rule exI[of _ s'])
    apply (intro conjI)
             apply (rule h ev c s0 m)+
    done
qed

text \<open>
  C2. The hits are the matching coordinates in row-major order: row 0 first, then the columns
  from left to right within each row. When there is a hit, the cell selected is the first one,
  which precedes every other hit in that order; with the hits (2, 0) and (0, 3) the cell (0, 3)
  is selected. Filtering any other enumeration of the same coordinates gives the same set.
\<close>

theorem highlightMatches_row_major:
  assumes "wf_used (used s)" and "trim needle \<noteq> []"
  shows "\<exists>hits s'.
     findHits rt (toLowerCase rt (trim needle)) (used s) = Inr hits \<and>
     highlightMatches rt needle s = Inr s' \<and>
     hits = filter (isHit rt (toLowerCase rt (trim needle)) (used s))
              (rowMajor (rowCount (used s)) (columnCount (used s))) \<and>
     (hits \<noteq> [] \<longrightarrow>
        selected (used s') = Some (hd hits) \<and> hd hits \<in> set hits \<and>
        (\<forall>rc\<in>set hits. rc = hd hits \<or> precedes (hd hits) rc)) \<and>
     (set hits = {(2, 0), (0, 3)} \<longrightarrow> selected (used s') = Some (0, 3)) \<and>
     (\<forall>order. set order = set (rowMajor (rowCount (used s)) (columnCount (used s))) \<longrightarrow>
        set (filter (isHit rt (toLowerCase rt (trim needle)) (used s)) order) = set hits)"
proof -
  let ?H = "hitsOf rt needle (used s)"
  obtain s' where s': "highlightMatches rt needle s = Inr s'"
    and f: "findHits rt (toLowerCase rt (trim needle)) (used s) = Inr ?H"
    and u: "used s' = highlighted (used s) ?H"
    using highlightMatches_result[OF assms] by blast
  have hdef: "?H = filter (isHit rt (toLowerCase rt (trim needle)) (used s))
              (rowMajor (rowCount (used s)) (columnCount (used s)))"
    by (simp add: hitsOf_def)
  have first: "\<forall>rc\<in>set ?H. rc = hd ?H \<or> precedes (hd ?H) rc"
    using hitsOf_first by blast
  have sel: "?H \<noteq> [] \<longrightarrow>
        selected (used s') = Some (hd ?H) \<and> hd ?H \<in> set ?H \<and>
        (\<forall>rc\<in>set ?H. rc = hd ?H \<or> precedes (hd ?H) rc)"
    using first by (simp add: u highlighted_def)
  have two: "set ?H = {(2, 0), (0, 3)} \<longrightarrow> selected (used s') = Some (0, 3)"
  proof
    assume eq: "set ?H = {(2, 0), (0, 3)}"
    have mem: "(0, 3) \<in> set ?H" unfolding eq by simp
    then have ne: "?H \<noteq> []" by (cases ?H) simp_all
    have "hd ?H \<in> set ?H" using ne by (rule hd_in_set)
    then have cases: "hd ?H = (2, 0) \<or> hd ?H = (0, 3)" unfolding eq by simp
    have disj: "(0, 3) = hd ?H \<or> precedes (hd ?H) (0, 3)" using first mem by (rule bspec)
    have hd03: "hd ?H = (0, 3)"
    proof (rule disjE[OF cases])
      assume h: "hd ?H = (2, 0)"
      have "(0::nat, 3::nat) = (2, 0) \<or> precedes (2, 0) (0, 3)" using disj unfolding h .
      then show ?thesis by (simp add: precedes_def)
    next
      assume "hd ?H = (0, 3)"
      then show ?thesis .
    qed
    have "selected (used s') = Some (hd ?H)" using sel ne by (rule mp[THEN conjunct1])
    then show "selected (used s') = Some (0, 3)" unfolding hd03 .
  qed
  have ord: "\<forall>order. set order = set (rowMajor (rowCount (used s)) (columnCount (used s))) \<longrightarrow>
        set (filter (isHit rt (toLowerCase rt (trim needle)) (used s)) order) = set ?H"
    by (simp add: hitsOf_def)
  show ?thesis
    apply (rule exI[of _ ?H], rule exI[of _ s'])
    apply (insert s' f hdef sel two ord)
    apply (intro conjI; assumption)
    done
qed

theorem highlightMatches_row_major_witness:
  "wf_used (used orderState) \<and> trim (lit ''hit'') \<noteq> [] \<and>
   (\<exists>s'. highlightMatches exampleRt (lit ''hit'') orderState = Inr s' \<and>
         selected (used s') = Some (0, 3))"
proof -
  have wf: "wf_used (used orderState)" by code_simp
  have nb: "trim (lit ''hit'') \<noteq> []" by code_simp
  obtain hits s' where
    f: "findHits exampleRt (toLowerCase exampleRt (trim (lit ''hit''))) (used orderState) = Inr hits"
    and h: "highlightMatches exampleRt (lit ''hit'') orderState = Inr s'"
    and two: "set hits = {(2, 0), (0, 3)} \<longrightarrow> selected (used s') = Some (0, 3)"
    using highlightMatches_row_major [OF wf nb, of exampleRt] by blast
  have "findHits exampleRt (toLowerCase exampleRt (trim (lit ''hit''))) (used orderState) =
      Inr [(0, 3), (2, 0)]"
    by code_simp
  then have "hits = [(0, 3), (2, 0)]" using f by simp
  then have "set hits = {(2, 0), (0, 3)}" by auto
  then have "selected (used s') = Some (0, 3)" using two by (rule rev_mp)
  then show ?thesis using wf nb h by blast
qed

text \<open>
  C3, amended. For a search string that is not blank (not empty and not only white space),
  one call of \<open>highlightMatches\<close> on a rectangular grid leaves the values and the extent of the
  used range as they were, and afterwards a cell of the used range has the highlight colour
  if it is a hit and no fill at all otherwise, whatever the fills were before the call:
  no fill of an earlier call survives.
\<close>

theorem highlightMatches_clears_then_highlights:
  assumes "wf_used (used s)" and "trim needle \<noteq> []"
  shows "\<exists>hits s'.
     findHits rt (toLowerCase rt (trim needle)) (used s) = Inr hits \<and>
     highlightMatches rt needle s = Inr s' \<and>
     cellValues (used s') = cellValues (used s) \<and>
     rowCount (used s') = rowCount (used s) \<and>
     columnCount (used s') = columnCount (used s) \<and>
     (\<forall>r<rowCount (used s). \<forall>c<columnCount (used s).
        fill (used s') (r, c) = (if (r, c) \<in> set hits then Some HIGHLIGHT_COLOR else None))"
proof -
  let ?H = "hitsOf rt needle (used s)"
  obtain s' where s': "highlightMatches rt needle s = Inr s'"
    and f: "findHits rt (toLowerCase rt (trim needle)) (used s) = Inr ?H"
    and u: "used s' = highlighted (used s) ?H"
    using highlightMatches_result[OF assms] by blast
  have "cellValues (used s') = cellValues (used s)" "rowCount (used s') = rowCount (used s)"
    "columnCount (used s') = columnCount (used s)"
    by (simp_all add: u highlighted_def)
  moreover have "\<forall>r<rowCount (used s). \<forall>c<columnCount (used s).
        fill (used s') (r, c) = (if (r, c) \<in> set ?H then Some HIGHLIGHT_COLOR else None)"
    by (simp add: u highlighted_def)
  ultimately show ?thesis using s' f by blast
qed

theorem highlightMatches_clears_then_highlights_witness:
  "wf_used (used staleState) \<and> trim (lit ''an'') \<noteq> [] \<and>
   (\<exists>s'. highlightMatches exampleRt (lit ''an'') staleState = Inr s' \<and>
      fill (used staleState) (0, 0) = Some HIGHLIGHT_COLOR \<and>
      fill (used s') (0, 0) = None \<and> fill (used s') (0, 1) = Some HIGHLIGHT_COLOR)"
proof -
  have wf: "wf_used (used staleState)" by code_simp
  have nb: "trim (lit ''an'') \<noteq> []" by code_simp
  obtain hits s' where
    f: "findHits exampleRt (toLowerCase exampleRt (trim (lit ''an''))) (used staleState) = Inr hits"
    and h: "highlightMatches exampleRt (lit ''an'') staleState = Inr s'"
    and fl: "\<forall>r<rowCount (used staleState). \<forall>c<columnCount (used staleState).
        fill (used s') (r, c) = (if (r, c) \<in> set hits then Some HIGHLIGHT_COLOR else None)"
    using highlightMatches_clears_then_highlights [OF wf nb, of exampleRt] by blast
  have "findHits exampleRt (toLowerCase exampleRt (trim (lit ''an''))) (used staleState) = Inr [(0, 1)]"
    by code_simp
  then have hits: "hits = [(0, 1)]" using f by simp
  have dims: "rowCount (used staleState) = 2" "columnCount (used staleState) = 2"
    by (simp_all add: staleState_def exampleRange_def)
  have a: "fill (used s') (0, 0) = None" using fl by (simp add: dims hits)
  have b: "fill (used s') (0, 1) = Some HIGHLIGHT_COLOR" using fl by (simp add: dims hits)
  have c: "fill (used staleState) (0, 0) = Some HIGHLIGHT_COLOR"
    by (simp add: staleState_def)
  show ?thesis using wf nb h a b c by blast
qed

text \<open>
  The claim as it was stated, for every search string that is not empty, fails on a single
  space: the call returns at line 30 and changes nothing, so the cell (0, 0) keeps the
  highlight of the earlier search and the cell (0, 1) has none, although every cell of the grid
  contains the empty query that the search string trims to.
\<close>

theorem highlightMatches_nonempty_counterexample:
  "lit '' '' \<noteq> [] \<and>
   highlightMatches exampleRt (lit '' '') staleState = Inr staleState \<and>
   fill (used staleState) (0, 0) = Some HIGHLIGHT_COLOR \<and>
   fill (used staleState) (0, 1) = None \<and>
   findHits exampleRt (toLowerCase exampleRt (trim (lit '' ''))) (used staleState) =
     Inr [(0, 0), (0, 1), (1, 0), (1, 1)]"
proof -
  have 1: "lit '' '' \<noteq> []" by (simp add: lit_def)
  have "trim (lit '' '') = []" by code_simp
  then have 2: "highlightMatches exampleRt (lit '' '') staleState = Inr staleState"
    by (rule highlightMatches_blank)
  have 3: "fill (used staleState) (0, 0) = Some HIGHLIGHT_COLOR"
    by (simp add: staleState_def)
  have 4: "fill (used staleState) (0, 1) = None"
    by (simp add: staleState_def)
  have 5: "findHits exampleRt (toLowerCase exampleRt (trim (lit '' ''))) (used staleState) =
     Inr [(0, 0), (0, 1), (1, 0), (1, 1)]"
    by code_simp
  show ?thesis by (intro conjI) (rule 1 2 3 4 5)+
qed

text \<open>
  C4. For a search string that is empty or consists of white space only,
  \<open>highlightMatches\<close> returns the state it was given: fills, selection, status text and
  everything else are as before.
\<close>

theorem highlightMatches_blank_noop:
  assumes "needle = [] \<or> (\<forall>u\<in>set needle. isWhiteSpace u)"
  shows "highlightMatches rt needle s = Inr s"
proof -
  have "trim needle = []" using assms by (auto simp: trim_Nil_iff)
  then show ?thesis by (simp add: highlightMatches_def)
qed

theorem highlightMatches_blank_noop_witness:
  "isWhiteSpace 0x20 \<and> isWhiteSpace 0x9 \<and> isWhiteSpace 0xA0 \<and>
   highlightMatches exampleRt [0x20, 0x9, 0xA0] staleState = Inr staleState \<and>
   highlightMatches exampleRt [] staleState = Inr staleState"
proof -
  have w: "isWhiteSpace 0x20" "isWhiteSpace 0x9" "isWhiteSpace 0xA0"
    by (simp_all add: isWhiteSpace_def)
  have h: "[0x20, 0x9, 0xA0] = [] \<or> (\<forall>u\<in>set [0x20, 0x9, 0xA0]. isWhiteSpace u)"
    using w by simp
  have e: "([]::jsstring) = [] \<or> (\<forall>u\<in>set ([]::jsstring). isWhiteSpace u)"
    by simp
  show ?thesis
    using w highlightMatches_blank_noop [OF h, of exampleRt staleState]
      highlightMatches_blank_noop [OF e, of exampleRt staleState]
    by blast
qed

text \<open>
  C5. The message handler stores the text of a frame in the transcript buffer and in the live
  display when the frame parses to an object whose \<open>type\<close> is the string \<open>partial\<close> and whose
  \<open>text\<close> is a string. For every other frame, and for a frame that does not parse, the
  handler returns the state unchanged; the frame \<open>{"type":"status","text":"ok"}\<close> is such a frame.
\<close>

theorem onmessage_partial_only:
  "(\<forall>text. spec_partial_text (JSON_parse rt data) = Some text \<longrightarrow>
      bufferText (onmessage rt data s) = text \<and> live (onmessage rt data s) = text) \<and>
   (spec_partial_text (JSON_parse rt data) = None \<longrightarrow> onmessage rt data s = s) \<and>
   (\<forall>e. JSON_parse rt data = Inl e \<longrightarrow> onmessage rt data s = s) \<and>
   (JSON_parse rt frameStatus = Inr statusMsg \<longrightarrow> onmessage rt frameStatus s = s)"
proof -
  have rec: "\<forall>text. spec_partial_text (JSON_parse rt data) = Some text \<longrightarrow>
      bufferText (onmessage rt data s) = text \<and> live (onmessage rt data s) = text"
  proof (intro allI impI)
    fix t
    assume a: "spec_partial_text (JSON_parse rt data) = Some t"
    have r: "bufferText (received t s) = t \<and> live (received t s) = t"
      by simp
    show "bufferText (onmessage rt data s) = t \<and> live (onmessage rt data s) = t"
    proof (cases "highlightMatches rt t (received t s)")
      case (Inl e)
      then show ?thesis using r by (simp add: onmessage_recognized[OF a])
    next
      case (Inr s2)
      then show ?thesis
        using r highlightMatches_frame[OF Inr] by (simp add: onmessage_recognized[OF a])
    qed
  qed
  have unrec: "spec_partial_text (JSON_parse rt data) = None \<longrightarrow> onmessage rt data s = s"
    using onmessage_unrecognized by blast
  have bad: "\<forall>e. JSON_parse rt data = Inl e \<longrightarrow> onmessage rt data s = s"
    by (simp add: onmessage_def)
  have "spec_partial_text (Inr statusMsg) = None" by code_simp
  then have st: "JSON_parse rt frameStatus = Inr statusMsg \<longrightarrow> onmessage rt frameStatus s = s"
    using onmessage_unrecognized[of rt frameStatus s] by simp
  show ?thesis
    by (intro conjI) (rule rec unrec bad st)+
qed

theorem onmessage_partial_only_witness:
  "spec_partial_text (JSON_parse exampleRt frameHello) = Some (lit ''hello'') \<and>
   bufferText (onmessage exampleRt frameHello exampleState) = lit ''hello'' \<and>
   live (onmessage exampleRt frameHello exampleState) = lit ''hello'' \<and>
   JSON_parse exampleRt frameStatus = Inr statusMsg \<and>
   onmessage exampleRt frameStatus exampleState = exampleState \<and>
   JSON_parse exampleRt (lit ''{oops'') = Inl SyntaxError \<and>
   onmessage exampleRt (lit ''{oops'') exampleState = exampleState"
proof -
  have p: "spec_partial_text (JSON_parse exampleRt frameHello) = Some (lit ''hello'')"
    by code_simp
  have q: "JSON_parse exampleRt frameStatus = Inr statusMsg" by code_simp
  have r: "JSON_parse exampleRt (lit ''{oops'') = Inl SyntaxError" by code_simp
  have 1: "bufferText (onmessage exampleRt frameHello exampleState) = lit ''hello'' \<and>
      live (onmessage exampleRt frameHello exampleState) = lit ''hello''"
    using onmessage_partial_only [of exampleRt frameHello exampleState] p by blast
  have 2: "onmessage exampleRt frameStatus exampleState = exampleState"
    using onmessage_partial_only [of exampleRt frameStatus exampleState] q by blast
  have 3: "onmessage exampleRt (lit ''{oops'') exampleState = exampleState"
    using onmessage_partial_only [of exampleRt "lit ''{oops''" exampleState] r by blast
  show ?thesis using p q r 1 2 3 by blast
qed

text \<open>
  C6. For a recognized frame, the handler calls \<open>highlightMatches\<close> on the new buffer exactly
  when the length of the buffer is at or above the threshold: below it the result is the
  state with the buffer and the live display replaced and nothing else; at or above it the
  result is what \<open>highlightMatches\<close> returns on that state (on a rectangular grid it always
  returns). With the threshold 6, \<open>hello\<close> does not start a search and \<open>hello!\<close> does.
\<close>

theorem onmessage_threshold:
  "(spec_partial_text (JSON_parse rt data) = Some text \<longrightarrow>
      (\<not> js_ge (Num (real (length text))) (autoSearchThreshold s) \<longrightarrow>
         onmessage rt data s = s\<lparr>bufferText := text, live := text\<rparr>) \<and>
      (js_ge (Num (real (length text))) (autoSearchThreshold s) \<longrightarrow>
         onmessage rt data s =
           (case highlightMatches rt text (s\<lparr>bufferText := text, live := text\<rparr>) of
              Inl e \<Rightarrow> s\<lparr>bufferText := text, live := text\<rparr>
            | Inr s2 \<Rightarrow> s2)) \<and>
      (js_ge (Num (real (length text))) (autoSearchThreshold s) \<and> wf_used (used s) \<longrightarrow>
         highlightMatches rt text (s\<lparr>bufferText := text, live := text\<rparr>) =
           Inr (onmessage rt data s))) \<and>
   (JSON_parse rt frameHello = Inr (partialMsg (lit ''hello'')) \<and> autoSearchThreshold s = Num 6 \<longrightarrow>
      onmessage rt frameHello s = s\<lparr>bufferText := lit ''hello'', live := lit ''hello''\<rparr>) \<and>
   (JSON_parse rt frameHelloBang = Inr (partialMsg (lit ''hello!'')) \<and>
    autoSearchThreshold s = Num 6 \<and> wf_used (used s) \<longrightarrow>
      highlightMatches rt (lit ''hello!'') (s\<lparr>bufferText := lit ''hello!'', live := lit ''hello!''\<rparr>) =
        Inr (onmessage rt frameHelloBang s))"
proof -
  have trig: "highlightMatches rt t (s\<lparr>bufferText := t, live := t\<rparr>) = Inr (onmessage rt d s)"
    if a: "spec_partial_text (JSON_parse rt d) = Some t"
      and ge: "js_ge (Num (real (length t))) (autoSearchThreshold s)"
      and wf: "wf_used (used s)" for d t
  proof -
    have "wf_used (used (received t s))" using wf by simp
    then obtain s2 where s2: "highlightMatches rt t (received t s) = Inr s2"
      using highlightMatches_total by blast
    then have "onmessage rt d s = s2" using ge by (simp add: onmessage_recognized[OF a])
    then show ?thesis using s2 by simp
  qed
  have gen: "spec_partial_text (JSON_parse rt data) = Some text \<longrightarrow>
      (\<not> js_ge (Num (real (length text))) (autoSearchThreshold s) \<longrightarrow>
         onmessage rt data s = s\<lparr>bufferText := text, live := text\<rparr>) \<and>
      (js_ge (Num (real (length text))) (autoSearchThreshold s) \<longrightarrow>
         onmessage rt data s =
           (case highlightMatches rt text (s\<lparr>bufferText := text, live := text\<rparr>) of
              Inl e \<Rightarrow> s\<lparr>bufferText := text, live := text\<rparr>
            | Inr s2 \<Rightarrow> s2)) \<and>
      (js_ge (Num (real (length text))) (autoSearchThreshold s) \<and> wf_used (used s) \<longrightarrow>
         highlightMatches rt text (s\<lparr>bufferText := text, live := text\<rparr>) =
           Inr (onmessage rt data s))"
  proof
    assume a: "spec_partial_text (JSON_parse rt data) = Some text"
    show "(\<not> js_ge (Num (real (length text))) (autoSearchThreshold s) \<longrightarrow>
         onmessage rt data s = s\<lparr>bufferText := text, live := text\<rparr>) \<and>
      (js_ge (Num (real (length text))) (autoSearchThreshold s) \<longrightarrow>
         onmessage rt data s =
           (case highlightMatches rt text (s\<lparr>bufferText := text, live := text\<rparr>) of
              Inl e \<Rightarrow> s\<lparr>bufferText := text, live := text\<rparr>
            | Inr s2 \<Rightarrow> s2)) \<and>
      (js_ge (Num (real (length text))) (autoSearchThreshold s) \<and> wf_used (used s) \<longrightarrow>
         highlightMatches rt text (s\<lparr>bufferText := text, live := text\<rparr>) =
           Inr (onmessage rt data s))"
      using trig[OF a] by (simp add: onmessage_recognized[OF a])
  qed
  have p1: "spec_partial_text (Inr (partialMsg (lit ''hello''))) = Some (lit ''hello'')"
    by code_simp
  have p2: "spec_partial_text (Inr (partialMsg (lit ''hello!''))) = Some (lit ''hello!'')"
    by code_simp
  have l1: "length (lit ''hello'') = 5" by code_simp
  have l2: "length (lit ''hello!'') = 6" by code_simp
  have sc1: "JSON_parse rt frameHello = Inr (partialMsg (lit ''hello'')) \<and> autoSearchThreshold s = Num 6 \<longrightarrow>
      onmessage rt frameHello s = s\<lparr>bufferText := lit ''hello'', live := lit ''hello''\<rparr>"
  proof
    assume a: "JSON_parse rt frameHello = Inr (partialMsg (lit ''hello'')) \<and> autoSearchThreshold s = Num 6"
    then have r: "spec_partial_text (JSON_parse rt frameHello) = Some (lit ''hello'')"
      using p1 by simp
    show "onmessage rt frameHello s = s\<lparr>bufferText := lit ''hello'', live := lit ''hello''\<rparr>"
      using a by (simp add: onmessage_recognized[OF r] l1)
  qed
  have sc2: "JSON_parse rt frameHelloBang = Inr (partialMsg (lit ''hello!'')) \<and>
    autoSearchThreshold s = Num 6 \<and> wf_used (used s) \<longrightarrow>
      highlightMatches rt (lit ''hello!'') (s\<lparr>bufferText := lit ''hello!'', live := lit ''hello!''\<rparr>) =
        Inr (onmessage rt frameHelloBang s)"
  proof
    assume a: "JSON_parse rt frameHelloBang = Inr (partialMsg (lit ''hello!'')) \<and>
      autoSearchThreshold s = Num 6 \<and> wf_used (used s)"
    then have r: "spec_partial_text (JSON_parse rt frameHelloBang) = Some (lit ''hello!'')"
      using p2 by simp
    have ge: "js_ge (Num (real (length (lit ''hello!'')))) (autoSearchThreshold s)"
      using a by (simp add: l2)
    show "highlightMatches rt (lit ''hello!'') (s\<lparr>bufferText := lit ''hello!'', live := lit ''hello!''\<rparr>) =
        Inr (onmessage rt frameHelloBang s)"
      using trig[OF r ge] a by blast
  qed
  show ?thesis
    by (intro conjI) (rule gen sc1 sc2)+
qed

theorem onmessage_threshold_witness:
  "JSON_parse exampleRt frameHello = Inr (partialMsg (lit ''hello'')) \<and>
   JSON_parse exampleRt frameHelloBang = Inr (partialMsg (lit ''hello!'')) \<and>
   autoSearchThreshold exampleState = Num 6 \<and> wf_used (used exampleState) \<and>
   onmessage exampleRt frameHello exampleState =
     exampleState\<lparr>bufferText := lit ''hello'', live := lit ''hello''\<rparr> \<and>
   highlightMatches exampleRt (lit ''hello!'')
       (exampleState\<lparr>bufferText := lit ''hello!'', live := lit ''hello!''\<rparr>) =
     Inr (onmessage exampleRt frameHelloBang exampleState) \<and>
   spec_partial_text (JSON_parse exampleRt frameHelloBang) = Some (lit ''hello!'') \<and>
   js_ge (Num (real (length (lit ''hello!'')))) (autoSearchThreshold exampleState) \<and>
   \<not> js_ge (Num (real (length (lit ''hello'')))) (autoSearchThreshold exampleState)"
proof -
  have p1: "JSON_parse exampleRt frameHello = Inr (partialMsg (lit ''hello''))" by code_simp
  have p2: "JSON_parse exampleRt frameHelloBang = Inr (partialMsg (lit ''hello!''))" by code_simp
  have th: "autoSearchThreshold exampleState = Num 6" by (simp add: exampleState_def)
  have wf: "wf_used (used exampleState)" by (rule wf_exampleState)
  have sp: "spec_partial_text (JSON_parse exampleRt frameHelloBang) = Some (lit ''hello!'')"
    by code_simp
  have ge: "js_ge (Num (real (length (lit ''hello!'')))) (autoSearchThreshold exampleState)"
    by (simp add: th lit_def)
  have lt: "\<not> js_ge (Num (real (length (lit ''hello'')))) (autoSearchThreshold exampleState)"
    by (simp add: th lit_def)
  have 1: "onmessage exampleRt frameHello exampleState =
     exampleState\<lparr>bufferText := lit ''hello'', live := lit ''hello''\<rparr>"
    using onmessage_threshold [of exampleRt frameHello "lit ''hello''" exampleState] p1 th by blast
  have 2: "highlightMatches exampleRt (lit ''hello!'')
       (exampleState\<lparr>bufferText := lit ''hello!'', live := lit ''hello!''\<rparr>) =
     Inr (onmessage exampleRt frameHelloBang exampleState)"
    using onmessage_threshold [of exampleRt frameHelloBang "lit ''hello!''" exampleState] p2 th wf
    by blast
  show ?thesis by (intro conjI) (rule p1 p2 th wf 1 2 sp ge lt)+
qed

text \<open>
  C7. For a search string that is not blank, \<open>highlightMatches\<close> on a rectangular grid sets
  the status text to the count of the hits and the search string when there is a hit, and to
  the no-matches message with the search string otherwise. On the grid
  \<open>[["apple","banana"],["Cherry","grape"]]\<close> the search string \<open>an\<close> gives the one hit (0, 1),
  highlighted and selected, and the status of one match; \<open>xyz\<close> gives no hit, no fill and the
  no-matches status.
\<close>

theorem highlightMatches_status:
  assumes "wf_used (used s)" and "trim needle \<noteq> []"
  shows "\<exists>hits s'.
     findHits rt (toLowerCase rt (trim needle)) (used s) = Inr hits \<and>
     highlightMatches rt needle s = Inr s' \<and>
     status s' =
       (if hits \<noteq> []
        then lit ''Found '' @ decimal (length hits) @ lit '' match(es) for '' @ [0x201C] @ needle
               @ [0x201D] @ lit ''.''
        else lit ''No matches for '' @ [0x201C] @ needle @ [0x201D] @ lit ''.'') \<and>
     (lowersAscii rt \<and> cellValues (used s) = exampleGrid \<and> needle = lit ''an'' \<longrightarrow>
        hits = [(0, 1)] \<and>
        status s' = lit ''Found 1 match(es) for '' @ [0x201C] @ lit ''an'' @ [0x201D] @ lit ''.'' \<and>
        selected (used s') = Some (0, 1) \<and>
        fill (used s') (0, 0) = None \<and> fill (used s') (0, 1) = Some HIGHLIGHT_COLOR \<and>
        fill (used s') (1, 0) = None \<and> fill (used s') (1, 1) = None) \<and>
     (lowersAscii rt \<and> cellValues (used s) = exampleGrid \<and> needle = lit ''xyz'' \<longrightarrow>
        hits = [] \<and>
        status s' = lit ''No matches for '' @ [0x201C] @ lit ''xyz'' @ [0x201D] @ lit ''.'' \<and>
        fill (used s') (0, 0) = None \<and> fill (used s') (0, 1) = None \<and>
        fill (used s') (1, 0) = None \<and> fill (used s') (1, 1) = None)"
proof -
  let ?H = "hitsOf rt needle (used s)"
  obtain s' where s': "highlightMatches rt needle s = Inr s'"
    and f: "findHits rt (toLowerCase rt (trim needle)) (used s) = Inr ?H"
    and u: "used s' = highlighted (used s) ?H"
    and st: "status s' = report (length ?H) needle"
    using highlightMatches_result[OF assms] by blast
  have general: "status s' =
       (if ?H \<noteq> []
        then lit ''Found '' @ decimal (length ?H) @ lit '' match(es) for '' @ [0x201C] @ needle
               @ [0x201D] @ lit ''.''
        else lit ''No matches for '' @ [0x201C] @ needle @ [0x201D] @ lit ''.'')"
    by (simp add: st report_def foundMsg_def noMatchMsg_def)
  have dims: "cellValues (used s) = exampleGrid \<Longrightarrow> rowCount (used s) = 2 \<and> columnCount (used s) = 2"
    using assms(1) by (simp add: wf_used_def exampleGrid_def)
  have an: "lowersAscii rt \<and> cellValues (used s) = exampleGrid \<and> needle = lit ''an'' \<longrightarrow>
        ?H = [(0, 1)] \<and>
        status s' = lit ''Found 1 match(es) for '' @ [0x201C] @ lit ''an'' @ [0x201D] @ lit ''.'' \<and>
        selected (used s') = Some (0, 1) \<and>
        fill (used s') (0, 0) = None \<and> fill (used s') (0, 1) = Some HIGHLIGHT_COLOR \<and>
        fill (used s') (1, 0) = None \<and> fill (used s') (1, 1) = None"
  proof
    assume a: "lowersAscii rt \<and> cellValues (used s) = exampleGrid \<and> needle = lit ''an''"
    then have n: "needle = lit ''an''" by blast
    have d: "rowCount (used s) = 2" "columnCount (used s) = 2" using dims a by blast+
    have H: "?H = [(0, 1)]" unfolding n using hitsOf_an a d by blast
    have msg: "report (length [(0::nat, 1::nat)]) (lit ''an'') =
        lit ''Found 1 match(es) for '' @ [0x201C] @ lit ''an'' @ [0x201D] @ lit ''.''"
      by code_simp
    have 1: "status s' = lit ''Found 1 match(es) for '' @ [0x201C] @ lit ''an'' @ [0x201D] @ lit ''.''"
      unfolding st H unfolding n by (rule msg)
    have 2: "selected (used s') = Some (0, 1)"
      by (simp add: u H highlighted_def)
    have 3: "fill (used s') (0, 0) = None" "fill (used s') (0, 1) = Some HIGHLIGHT_COLOR"
      "fill (used s') (1, 0) = None" "fill (used s') (1, 1) = None"
      by (simp_all add: u H highlighted_def d)
    show "?H = [(0, 1)] \<and>
        status s' = lit ''Found 1 match(es) for '' @ [0x201C] @ lit ''an'' @ [0x201D] @ lit ''.'' \<and>
        selected (used s') = Some (0, 1) \<and>
        fill (used s') (0, 0) = None \<and> fill (used s') (0, 1) = Some HIGHLIGHT_COLOR \<and>
        fill (used s') (1, 0) = None \<and> fill (used s') (1, 1) = None"
      by (intro conjI) (rule H 1 2 3)+
  qed
  have xyz: "lowersAscii rt \<and> cellValues (used s) = exampleGrid \<and> needle = lit ''xyz'' \<longrightarrow>
        ?H = [] \<and>
        status s' = lit ''No matches for '' @ [0x201C] @ lit ''xyz'' @ [0x201D] @ lit ''.'' \<and>
        fill (used s') (0, 0) = None \<and> fill (used s') (0, 1) = None \<and>
        fill (used s') (1, 0) = None \<and> fill (used s') (1, 1) = None"
  proof
    assume a: "lowersAscii rt \<and> cellValues (used s) = exampleGrid \<and> needle = lit ''xyz''"
    then have n: "needle = lit ''xyz''" by blast
    have d: "rowCount (used s) = 2" "columnCount (used s) = 2" using dims a by blast+
    have H: "?H = []" unfolding n using hitsOf_xyz a d by blast
    have msg: "report (length ([]::(nat \<times> nat) list)) (lit ''xyz'') =
        lit ''No matches for '' @ [0x201C] @ lit ''xyz'' @ [0x201D] @ lit ''.''"
      by code_simp
    have 1: "status s' = lit ''No matches for '' @ [0x201C] @ lit ''xyz'' @ [0x201D] @ lit ''.''"
      unfolding st H unfolding n by (rule msg)
    have 3: "fill (used s') (0, 0) = None" "fill (used s') (0, 1) = None"
      "fill (used s') (1, 0) = None" "fill (used s') (1, 1) = None"
      by (simp_all add: u H highlighted_def d)
    show "?H = [] \<and>
        status s' = lit ''No matches for '' @ [0x201C] @ lit ''xyz'' @ [0x201D] @ lit ''.'' \<and>
        fill (used s') (0, 0) = None \<and> fill (used s') (0, 1) = None \<and>
        fill (used s') (1, 0) = None \<and> fill (used s') (1, 1) = None"
      by (intro conjI) (rule H 1 3)+
  qed
  show ?thesis
    apply (rule exI[of _ ?H], rule exI[of _ s'])
    apply (insert s' f general an xyz)
    apply (intro conjI; assumption)
    done
qed

theorem highlightMatches_status_witness:
  "wf_used (used exampleState) \<and> trim (lit ''an'') \<noteq> [] \<and> lowersAscii exampleRt \<and>
   cellValues (used exampleState) = exampleGrid \<and>
   (\<exists>s'. highlightMatches exampleRt (lit ''an'') exampleState = Inr s' \<and>
      status s' = lit ''Found 1 match(es) for '' @ [0x201C] @ lit ''an'' @ [0x201D] @ lit ''.'' \<and>
      selected (used s') = Some (0, 1) \<and> fill (used s') (0, 1) = Some HIGHLIGHT_COLOR)"
proof -
  have wf: "wf_used (used exampleState)" by (rule wf_exampleState)
  have nb: "trim (lit ''an'') \<noteq> []" by code_simp
  have la: "lowersAscii exampleRt" by (rule lowersAscii_exampleRt)
  have g: "cellValues (used exampleState) = exampleGrid"
    by (simp add: exampleState_def exampleRange_def)
  obtain hits s' where
    h: "highlightMatches exampleRt (lit ''an'') exampleState = Inr s'"
    and an: "lowersAscii exampleRt \<and> cellValues (used exampleState) = exampleGrid \<and>
        lit ''an'' = lit ''an'' \<longrightarrow>
        hits = [(0, 1)] \<and>
        status s' = lit ''Found 1 match(es) for '' @ [0x201C] @ lit ''an'' @ [0x201D] @ lit ''.'' \<and>
        selected (used s') = Some (0, 1) \<and>
        fill (used s') (0, 0) = None \<and> fill (used s') (0, 1) = Some HIGHLIGHT_COLOR \<and>
        fill (used s') (1, 0) = None \<and> fill (used s') (1, 1) = None"
    using highlightMatches_status [OF wf nb, of exampleRt] by blast
  have "lowersAscii exampleRt \<and> cellValues (used exampleState) = exampleGrid \<and> lit ''an'' = lit ''an''"
    using la g by blast
  then have "hits = [(0, 1)] \<and>
        status s' = lit ''Found 1 match(es) for '' @ [0x201C] @ lit ''an'' @ [0x201D] @ lit ''.'' \<and>
        selected (used s') = Some (0, 1) \<and>
        fill (used s') (0, 0) = None \<and> fill (used s') (0, 1) = Some HIGHLIGHT_COLOR \<and>
        fill (used s') (1, 0) = None \<and> fill (used s') (1, 1) = None"
    using an by (rule rev_mp)
  then show ?thesis using wf nb la g h by blast
qed

text \<open>
  C8. Calling \<open>highlightMatches\<close> a second time with the same search string on the sheet
  as the first call left it changes nothing: the second call returns the state that the
  first one returned, and with it the same fills, the same selected cell and the same
  status text. On a rectangular grid the first call returns.
\<close>

theorem highlightMatches_idempotent:
  assumes "wf_used (used s)"
  shows "\<exists>s1. highlightMatches rt needle s = Inr s1 \<and> highlightMatches rt needle s1 = Inr s1"
proof (cases "trim needle = []")
  case True
  then show ?thesis by (simp add: highlightMatches_blank)
next
  case False
  let ?s1 = "s\<lparr>used := highlighted (used s) (hitsOf rt needle (used s)),
            status := report (length (hitsOf rt needle (used s))) needle\<rparr>"
  have 1: "highlightMatches rt needle s = Inr ?s1" using highlightMatches_wf[OF assms False] .
  have wf1: "wf_used (used ?s1)" using assms by (simp add: wf_used_highlighted)
  have 2: "highlightMatches rt needle ?s1 = Inr ?s1"
    by (subst highlightMatches_wf[OF wf1 False]) (simp add: hitsOf_highlighted highlighted_idem)
  show ?thesis using 1 2 by blast
qed

theorem highlightMatches_idempotent_witness:
  "wf_used (used exampleState) \<and>
   (\<exists>s1. highlightMatches exampleRt (lit ''an'') exampleState = Inr s1 \<and>
         highlightMatches exampleRt (lit ''an'') s1 = Inr s1)"
proof -
  have wf: "wf_used (used exampleState)"
    by (rule wf_exampleState)
  show ?thesis
    using wf highlightMatches_idempotent [OF wf, of exampleRt "lit ''an''"] by blast
qed

text \<open>
  C9. \<open>disconnect\<close> does nothing when there is no connection handle. When there is one, it
  calls \<open>close\<close> on that socket, which is then neither open nor connecting, and clears the
  handle. A second call in a row changes nothing.
\<close>

theorem disconnect_idempotent:
  "(ws s = None \<longrightarrow> disconnect s = s) \<and>
   (\<forall>h. ws s = Some h \<longrightarrow>
      disconnect s = s\<lparr>sockets := (sockets s)(h := wsClose (sockets s h)), ws := None\<rparr> \<and>
      ws (disconnect s) = None \<and>
      sockets (disconnect s) h \<noteq> OPEN \<and> sockets (disconnect s) h \<noteq> CONNECTING) \<and>
   disconnect (disconnect s) = disconnect s"
proof -
  have closed: "wsClose st \<noteq> OPEN \<and> wsClose st \<noteq> CONNECTING" for st
    by (cases st) simp_all
  have 1: "ws s = None \<longrightarrow> disconnect s = s" by (simp add: disconnect_def)
  have 2: "\<forall>h. ws s = Some h \<longrightarrow>
      disconnect s = s\<lparr>sockets := (sockets s)(h := wsClose (sockets s h)), ws := None\<rparr> \<and>
      ws (disconnect s) = None \<and>
      sockets (disconnect s) h \<noteq> OPEN \<and> sockets (disconnect s) h \<noteq> CONNECTING"
    using closed by (simp add: disconnect_def)
  have "ws (disconnect s) = None" by (simp add: disconnect_def split: option.splits)
  then have 3: "disconnect (disconnect s) = disconnect s"
    by (simp add: disconnect_def[of "disconnect s"])
  show ?thesis by (intro conjI) (rule 1 2 3)+
qed

theorem disconnect_idempotent_witness:
  "ws openState = Some 1 \<and> sockets openState 1 = OPEN \<and>
   ws (disconnect openState) = None \<and> sockets (disconnect openState) 1 \<noteq> OPEN \<and>
   disconnect (disconnect openState) = disconnect openState \<and>
   ws exampleState = None \<and> disconnect exampleState = exampleState"
proof -
  have a: "ws openState = Some 1" by (simp add: openState_def)
  have b: "sockets openState 1 = OPEN" by (simp add: openState_def)
  have c: "ws exampleState = None" by (simp add: exampleState_def)
  have 1: "ws (disconnect openState) = None \<and> sockets (disconnect openState) 1 \<noteq> OPEN"
    using disconnect_idempotent [of openState] a by blast
  have 2: "disconnect (disconnect openState) = disconnect openState"
    using disconnect_idempotent [of openState] by blast
  have 3: "disconnect exampleState = exampleState"
    using disconnect_idempotent [of exampleState] c by blast
  show ?thesis using a b c 1 2 3 by blast
qed

text \<open>
  C10. The change handler of the threshold input never stores a negative number. When the
  value read is a number \<open>x\<close>, the threshold becomes the larger of 0 and \<open>x\<close>, which is at least
  0; so the threshold stays at least 0 through any sequence of changes that read numbers.
  (A text that \<open>Number\<close> turns into NaN makes the threshold NaN, which is neither negative
  nor at least 0.)
\<close>

theorem threshold_never_negative:
  "\<not> js_lt (autoSearchThreshold (onThresholdChange rt v s)) (Num 0) \<and>
   (toNumber rt v \<noteq> NaN \<longrightarrow>
      autoSearchThreshold (onThresholdChange rt v s) = mathMax (Num 0) (toNumber rt v) \<and>
      js_ge (autoSearchThreshold (onThresholdChange rt v s)) (Num 0)) \<and>
   (\<forall>x. toNumber rt v = Num x \<longrightarrow> autoSearchThreshold (onThresholdChange rt v s) = Num (max 0 x)) \<and>
   (js_ge (autoSearchThreshold s) (Num 0) \<and> (\<forall>w\<in>set vs. toNumber rt w \<noteq> NaN) \<longrightarrow>
      js_ge (autoSearchThreshold (fold (onThresholdChange rt) vs s)) (Num 0)) \<and>
   (\<not> js_lt (autoSearchThreshold s) (Num 0) \<longrightarrow>
      \<not> js_lt (autoSearchThreshold (fold (onThresholdChange rt) vs s)) (Num 0))"
proof -
  have 1: "\<not> js_lt (autoSearchThreshold (onThresholdChange rt v s)) (Num 0)"
    by (simp add: onThresholdChange_def mathMax_zero_not_lt)
  have 2: "toNumber rt v \<noteq> NaN \<longrightarrow>
      autoSearchThreshold (onThresholdChange rt v s) = mathMax (Num 0) (toNumber rt v) \<and>
      js_ge (autoSearchThreshold (onThresholdChange rt v s)) (Num 0)"
    by (simp add: onThresholdChange_def mathMax_zero_ge)
  have 3: "\<forall>x. toNumber rt v = Num x \<longrightarrow> autoSearchThreshold (onThresholdChange rt v s) = Num (max 0 x)"
    by (simp add: onThresholdChange_def)
  have 4: "js_ge (autoSearchThreshold s) (Num 0) \<and> (\<forall>w\<in>set vs. toNumber rt w \<noteq> NaN) \<longrightarrow>
      js_ge (autoSearchThreshold (fold (onThresholdChange rt) vs s)) (Num 0)"
    using fold_threshold_ge by blast
  have 5: "\<not> js_lt (autoSearchThreshold s) (Num 0) \<longrightarrow>
      \<not> js_lt (autoSearchThreshold (fold (onThresholdChange rt) vs s)) (Num 0)"
    using fold_threshold_not_lt by blast
  show ?thesis by (intro conjI) (rule 1 2 3 4 5)+
qed

theorem threshold_never_negative_witness:
  "toNumber exampleRt (lit ''-3'') = Num (- 3) \<and>
   autoSearchThreshold (onThresholdChange exampleRt (lit ''-3'') exampleState) = Num 0 \<and>
   js_ge (autoSearchThreshold exampleState) (Num 0) \<and>
   toNumber exampleRt (lit ''10'') = Num 10 \<and> toNumber exampleRt [] = Num 0 \<and>
   js_ge (autoSearchThreshold (fold (onThresholdChange exampleRt) [lit ''10'', lit ''-3'', []] exampleState))
     (Num 0)"
proof -
  have a: "toNumber exampleRt (lit ''-3'') = Num (- 3)"
    by (simp add: exampleRt_def exampleNumber_def lit_def)
  have a10: "toNumber exampleRt (lit ''10'') = Num 10"
    by (simp add: exampleRt_def exampleNumber_def lit_def)
  have a0: "toNumber exampleRt [] = Num 0"
    by (simp add: exampleRt_def exampleNumber_def)
  have b: "js_ge (autoSearchThreshold exampleState) (Num 0)" by (simp add: exampleState_def)
  have c: "\<forall>w\<in>set [lit ''10'', lit ''-3'', []]. toNumber exampleRt w \<noteq> NaN"
    by (simp add: a a10 a0)
  have "autoSearchThreshold (onThresholdChange exampleRt (lit ''-3'') exampleState) = Num (max 0 (- 3))"
    using threshold_never_negative [of exampleRt "lit ''-3''" exampleState] a by blast
  then have 1: "autoSearchThreshold (onThresholdChange exampleRt (lit ''-3'') exampleState) = Num 0"
    by simp
  have 2: "js_ge (autoSearchThreshold (fold (onThresholdChange exampleRt) [lit ''10'', lit ''-3'', []] exampleState))
     (Num 0)"
    using threshold_never_negative [of exampleRt _ exampleState "[lit ''10'', lit ''-3'', []]"] b c
    by blast
  show ?thesis by (intro conjI) (rule a b a10 a0 1 2)+
qed

end
